theory Spec2Isabelle
  imports Main "HOL-Library.Word"
begin

unbundle bit_operations_syntax

section \<open>Etherlink: the frame protocol engine\<close>

text \<open>
  A shallow embedding of \<^verbatim>\<open>etherlink/src/etherlink.c\<close> and of the declarations of
  \<^verbatim>\<open>etherlink.h\<close> it uses. A C buffer argument (a pointer with its length) is the list
  of the bytes it holds; a pointer that the code tests against \<^verbatim>\<open>NULL\<close> is an
  \<open>option\<close>, with \<open>None\<close> for the null pointer; \<^verbatim>\<open>uint8_t\<close> and \<^verbatim>\<open>uint32_t\<close>
  are words, so that \<open>+\<close> wraps as the C arithmetic does.
\<close>

type_synonym uint8_t = "8 word"
type_synonym uint32_t = "32 word"

subsection \<open>Configuration constants\<close>

definition EL_SYNC_BYTE :: uint8_t where
  "EL_SYNC_BYTE = 0xA5"

definition EL_MAX_PAYLOAD :: nat where
  "EL_MAX_PAYLOAD = 250"

definition EL_FRAME_OVERHEAD :: nat where
  "EL_FRAME_OVERHEAD = 4"

subsection \<open>CRC-8 lookup table and CRC functions\<close>

definition crc8_table :: "uint8_t list" where
  "crc8_table =
    [
     0x00, 0x07, 0x0E, 0x09, 0x1C, 0x1B, 0x12, 0x15,
     0x38, 0x3F, 0x36, 0x31, 0x24, 0x23, 0x2A, 0x2D,
     0x70, 0x77, 0x7E, 0x79, 0x6C, 0x6B, 0x62, 0x65,
     0x48, 0x4F, 0x46, 0x41, 0x54, 0x53, 0x5A, 0x5D,
     0xE0, 0xE7, 0xEE, 0xE9, 0xFC, 0xFB, 0xF2, 0xF5,
     0xD8, 0xDF, 0xD6, 0xD1, 0xC4, 0xC3, 0xCA, 0xCD,
     0x90, 0x97, 0x9E, 0x99, 0x8C, 0x8B, 0x82, 0x85,
     0xA8, 0xAF, 0xA6, 0xA1, 0xB4, 0xB3, 0xBA, 0xBD,
     0xC7, 0xC0, 0xC9, 0xCE, 0xDB, 0xDC, 0xD5, 0xD2,
     0xFF, 0xF8, 0xF1, 0xF6, 0xE3, 0xE4, 0xED, 0xEA,
     0xB7, 0xB0, 0xB9, 0xBE, 0xAB, 0xAC, 0xA5, 0xA2,
     0x8F, 0x88, 0x81, 0x86, 0x93, 0x94, 0x9D, 0x9A,
     0x27, 0x20, 0x29, 0x2E, 0x3B, 0x3C, 0x35, 0x32,
     0x1F, 0x18, 0x11, 0x16, 0x03, 0x04, 0x0D, 0x0A,
     0x57, 0x50, 0x59, 0x5E, 0x4B, 0x4C, 0x45, 0x42,
     0x6F, 0x68, 0x61, 0x66, 0x73, 0x74, 0x7D, 0x7A,
     0x89, 0x8E, 0x87, 0x80, 0x95, 0x92, 0x9B, 0x9C,
     0xB1, 0xB6, 0xBF, 0xB8, 0xAD, 0xAA, 0xA3, 0xA4,
     0xF9, 0xFE, 0xF7, 0xF0, 0xE5, 0xE2, 0xEB, 0xEC,
     0xC1, 0xC6, 0xCF, 0xC8, 0xDD, 0xDA, 0xD3, 0xD4,
     0x69, 0x6E, 0x67, 0x60, 0x75, 0x72, 0x7B, 0x7C,
     0x51, 0x56, 0x5F, 0x58, 0x4D, 0x4A, 0x43, 0x44,
     0x19, 0x1E, 0x17, 0x10, 0x05, 0x02, 0x0B, 0x0C,
     0x21, 0x26, 0x2F, 0x28, 0x3D, 0x3A, 0x33, 0x34,
     0x4E, 0x49, 0x40, 0x47, 0x52, 0x55, 0x5C, 0x5B,
     0x76, 0x71, 0x78, 0x7F, 0x6A, 0x6D, 0x64, 0x63,
     0x3E, 0x39, 0x30, 0x37, 0x22, 0x25, 0x2C, 0x2B,
     0x06, 0x01, 0x08, 0x0F, 0x1A, 0x1D, 0x14, 0x13,
     0xAE, 0xA9, 0xA0, 0xA7, 0xB2, 0xB5, 0xBC, 0xBB,
     0x96, 0x91, 0x98, 0x9F, 0x8A, 0x8D, 0x84, 0x83,
     0xDE, 0xD9, 0xD0, 0xD7, 0xC2, 0xC5, 0xCC, 0xCB,
     0xE6, 0xE1, 0xE8, 0xEF, 0xFA, 0xFD, 0xF4, 0xF3
    ]"

text \<open>
  \<^verbatim>\<open>crc8_table[crc ^ byte]\<close>: the index is a \<^verbatim>\<open>uint8_t\<close>, below 256, the size of
  the table.
\<close>

definition el_crc8_update :: "uint8_t \<Rightarrow> uint8_t \<Rightarrow> uint8_t" where
  "el_crc8_update crc byte = crc8_table ! unat (crc XOR byte)"

text \<open>
  \<^verbatim>\<open>el_crc8(data, len)\<close>: the loop over \<^verbatim>\<open>i < len\<close> is a fold over the \<open>len\<close> bytes
  at \<open>data\<close>, from the left, starting from \<^verbatim>\<open>crc = 0x00\<close>.
\<close>

definition el_crc8 :: "uint8_t list \<Rightarrow> uint8_t" where
  "el_crc8 data = fold (\<lambda>byte crc. crc8_table ! unat (crc XOR byte)) data 0x00"

subsection \<open>The reference CRC-8, bit by bit\<close>

text \<open>
  The specification's CRC-8: polynomial 0x07, initial value 0x00, no reflection. One
  step shifts the register left by one bit and, when the bit shifted out was set,
  adds the polynomial; a byte is added to the register and followed by eight steps.
  These three definitions follow the specification, not the code.
\<close>

definition crc8_bit_step :: "uint8_t \<Rightarrow> uint8_t" where
  "crc8_bit_step c = (if bit c 7 then push_bit 1 c XOR 0x07 else push_bit 1 c)"

definition crc8_bitwise_update :: "uint8_t \<Rightarrow> uint8_t \<Rightarrow> uint8_t" where
  "crc8_bitwise_update crc byte = (crc8_bit_step ^^ 8) (crc XOR byte)"

definition crc8_bitwise :: "uint8_t list \<Rightarrow> uint8_t" where
  "crc8_bitwise data = fold (\<lambda>byte crc. crc8_bitwise_update crc byte) data 0x00"

subsection \<open>Types\<close>

text \<open>
  The two callback types are function pointers. A pointer is \<open>None\<close> when it is
  \<^verbatim>\<open>NULL\<close> and \<open>Some a\<close> for the function at address \<open>a\<close>. What a callback does is
  outside the engine: a call is recorded with the arguments it was given.
\<close>

type_synonym el_on_message_t = "nat option"
type_synonym el_send_bytes_t = "nat option"

text \<open>
  One call \<^verbatim>\<open>on_message(msg_id, payload, len)\<close>: the message id, the bytes of the
  buffer \<open>payload\<close> points to (always the whole receive buffer), and the length.
  The payload the callback is meant to read is the first \<open>len\<close> bytes of the buffer.
\<close>

type_synonym on_message_call = "uint8_t \<times> uint8_t list \<times> uint8_t"

definition payload_view :: "on_message_call \<Rightarrow> uint8_t list" where
  "payload_view c = (case c of (msg_id, payload, len) \<Rightarrow> take (unat len) payload)"

text \<open>One call \<^verbatim>\<open>send_bytes(data, len)\<close>: the \<open>len\<close> bytes at \<open>data\<close>.\<close>

type_synonym send_bytes_call = "uint8_t list"

datatype el_state_t =
    EL_STATE_IDLE
  | EL_STATE_GOT_SYNC
  | EL_STATE_GOT_ID
  | EL_STATE_GOT_LEN
  | EL_STATE_GOT_PAYLOAD

record el_ctx_t =
  on_message :: el_on_message_t
  send_bytes :: el_send_bytes_t
  state :: el_state_t
  msg_id :: uint8_t
  payload_len :: uint8_t
  payload_idx :: uint8_t
  rx_buffer :: "uint8_t list"
  running_crc :: uint8_t
  rx_frames :: uint32_t
  rx_errors :: uint32_t
  tx_frames :: uint32_t

record el_config_t =
  config_on_message :: el_on_message_t
  config_send_bytes :: el_send_bytes_t

text \<open>
  The receive buffer is declared \<^verbatim>\<open>uint8_t rx_buffer[EL_MAX_PAYLOAD]\<close>. A write at an
  index outside it is undefined behaviour in C; the model makes it a value.
\<close>

datatype fault = Rx_Buffer_Overrun

subsection \<open>Core API\<close>

text \<open>
  \<^verbatim>\<open>el_init\<close>: \<^verbatim>\<open>memset\<close> zeroes every field (state \<^verbatim>\<open>EL_STATE_IDLE\<close> is the enum's
  value 0), then the two callbacks are copied from the configuration. On failure the
  context is not touched.
\<close>

fun el_init :: "el_ctx_t option \<Rightarrow> el_config_t option \<Rightarrow> bool \<times> el_ctx_t option" where
  "el_init (Some ctx) (Some config) =
     (if config_on_message config = None \<or> config_send_bytes config = None
      then (False, Some ctx)
      else (True, Some
        \<lparr> on_message = config_on_message config,
          send_bytes = config_send_bytes config,
          state = EL_STATE_IDLE,
          msg_id = 0,
          payload_len = 0,
          payload_idx = 0,
          rx_buffer = replicate EL_MAX_PAYLOAD 0,
          running_crc = 0,
          rx_frames = 0,
          rx_errors = 0,
          tx_frames = 0 \<rparr>))"
| "el_init ctx config = (False, ctx)"

fun el_reset :: "el_ctx_t option \<Rightarrow> el_ctx_t option" where
  "el_reset None = None"
| "el_reset (Some ctx) =
     Some (ctx\<lparr>state := EL_STATE_IDLE, payload_idx := 0, running_crc := 0\<rparr>)"

text \<open>
  \<^verbatim>\<open>el_process_byte\<close>: one transition of the parser. The result is the context after
  the call and the calls of \<^verbatim>\<open>on_message\<close> made during it, or the fault of a write
  outside the receive buffer.
\<close>

fun el_process_byte ::
  "el_ctx_t option \<Rightarrow> uint8_t \<Rightarrow> fault + (el_ctx_t option \<times> on_message_call list)" where
  "el_process_byte None byte = Inr (None, [])"
| "el_process_byte (Some ctx) byte =
     (case state ctx of
        EL_STATE_IDLE \<Rightarrow>
          if byte = EL_SYNC_BYTE
          then Inr (Some (ctx\<lparr>state := EL_STATE_GOT_SYNC, running_crc := 0\<rparr>), [])
          else Inr (Some ctx, [])
      | EL_STATE_GOT_SYNC \<Rightarrow>
          Inr (Some (ctx\<lparr>msg_id := byte,
                           running_crc := el_crc8_update (running_crc ctx) byte,
                           state := EL_STATE_GOT_ID\<rparr>), [])
      | EL_STATE_GOT_ID \<Rightarrow>
          (let ctx = ctx\<lparr>payload_len := byte,
                            running_crc := el_crc8_update (running_crc ctx) byte\<rparr>
           in if unat (payload_len ctx) > EL_MAX_PAYLOAD
              then Inr (Some (ctx\<lparr>rx_errors := rx_errors ctx + 1,
                                    state := EL_STATE_IDLE\<rparr>), [])
              else if payload_len ctx = 0
              then Inr (Some (ctx\<lparr>state := EL_STATE_GOT_PAYLOAD\<rparr>), [])
              else Inr (Some (ctx\<lparr>payload_idx := 0, state := EL_STATE_GOT_LEN\<rparr>), []))
      | EL_STATE_GOT_LEN \<Rightarrow>
          if unat (payload_idx ctx) \<ge> EL_MAX_PAYLOAD
          then Inl Rx_Buffer_Overrun
          else
            (let ctx = ctx\<lparr>rx_buffer := (rx_buffer ctx)[unat (payload_idx ctx) := byte],
                             payload_idx := payload_idx ctx + 1\<rparr>;
                 ctx = ctx\<lparr>running_crc := el_crc8_update (running_crc ctx) byte\<rparr>
             in if payload_idx ctx \<ge> payload_len ctx
                then Inr (Some (ctx\<lparr>state := EL_STATE_GOT_PAYLOAD\<rparr>), [])
                else Inr (Some ctx, []))
      | EL_STATE_GOT_PAYLOAD \<Rightarrow>
          if byte = running_crc ctx
          then
            (let ctx = ctx\<lparr>rx_frames := rx_frames ctx + 1\<rparr>
             in Inr (Some (ctx\<lparr>state := EL_STATE_IDLE\<rparr>),
                     if on_message ctx \<noteq> None
                     then [(msg_id ctx, rx_buffer ctx, payload_len ctx)]
                     else []))
          else Inr (Some (ctx\<lparr>rx_errors := rx_errors ctx + 1,
                                state := EL_STATE_IDLE\<rparr>), []))"

text \<open>
  \<^verbatim>\<open>el_process_bytes\<close>: the loop calls \<^verbatim>\<open>el_process_byte\<close> on each byte in order;
  the calls of \<^verbatim>\<open>on_message\<close> are collected in the order they were made.
\<close>

fun el_process_bytes ::
  "el_ctx_t option \<Rightarrow> uint8_t list \<Rightarrow> fault + (el_ctx_t option \<times> on_message_call list)" where
  "el_process_bytes ctx [] = Inr (ctx, [])"
| "el_process_bytes ctx (byte # data) =
     (case el_process_byte ctx byte of
        Inl f \<Rightarrow> Inl f
      | Inr (ctx', calls) \<Rightarrow>
          (case el_process_bytes ctx' data of
             Inl f \<Rightarrow> Inl f
           | Inr (ctx'', calls') \<Rightarrow> Inr (ctx'', calls @ calls')))"

text \<open>
  \<^verbatim>\<open>el_send\<close>: the frame is built in a stack buffer of
  \<^verbatim>\<open>EL_FRAME_OVERHEAD + EL_MAX_PAYLOAD\<close> bytes, \<open>frame_len\<close> (a \<^verbatim>\<open>uint8_t\<close>) counting
  the bytes written; \<^verbatim>\<open>memcpy\<close> copies \<open>len\<close> bytes from \<open>payload\<close>, which must
  hold at least that many. The CRC is taken over the \<open>2 + len\<close> bytes at
  \<^verbatim>\<open>&frame[1]\<close>. The result is the return value, the context after the call and the
  calls of \<^verbatim>\<open>send_bytes\<close> made.
\<close>

fun el_send ::
  "el_ctx_t option \<Rightarrow> uint8_t \<Rightarrow> uint8_t list option \<Rightarrow> uint8_t
     \<Rightarrow> bool \<times> el_ctx_t option \<times> send_bytes_call list" where
  "el_send None msg_id' payload len = (False, None, [])"
| "el_send (Some ctx) msg_id' payload len =
     (if send_bytes ctx = None then (False, Some ctx, [])
      else if unat len > EL_MAX_PAYLOAD then (False, Some ctx, [])
      else if len > 0 \<and> payload = None then (False, Some ctx, [])
      else
        (let frame = [EL_SYNC_BYTE, msg_id', len];
             frame_len = (3 :: uint8_t);
             (frame, frame_len) =
               (if len > 0
                then (frame @ take (unat len) (the payload), frame_len + len)
                else (frame, frame_len));
             crc = el_crc8 (take (2 + unat len) (drop 1 frame));
             frame = frame @ [crc];
             frame_len = frame_len + 1
         in (True, Some (ctx\<lparr>tx_frames := tx_frames ctx + 1\<rparr>),
             [take (unat frame_len) frame])))"

subsection \<open>Contexts used in the examples\<close>

text \<open>
  A context in zero-initialised static storage on which \<^verbatim>\<open>el_init\<close> has not run, a
  configuration with both callbacks, and the context \<^verbatim>\<open>el_init\<close> makes from them.
\<close>

definition zeroed_ctx :: el_ctx_t where
  "zeroed_ctx =
     \<lparr> on_message = None, send_bytes = None, state = EL_STATE_IDLE, msg_id = 0,
       payload_len = 0, payload_idx = 0, rx_buffer = replicate EL_MAX_PAYLOAD 0,
       running_crc = 0, rx_frames = 0, rx_errors = 0, tx_frames = 0 \<rparr>"

definition example_config :: el_config_t where
  "example_config = \<lparr> config_on_message = Some 1, config_send_bytes = Some 2 \<rparr>"

definition fresh_ctx :: el_ctx_t where
  "fresh_ctx = zeroed_ctx\<lparr>on_message := Some 1, send_bytes := Some 2\<rparr>"

section \<open>The CRC engine\<close>

subsection \<open>The table is the bitwise CRC of its index\<close>

lemma funpow_8: "(f ^^ 8) x = f (f (f (f (f (f (f (f x)))))))"
  by (simp add: eval_nat_numeral)

lemma crc8_bit_step_numeral:
  "crc8_bit_step (numeral n) =
     (if bit (numeral n :: uint8_t) 7 then push_bit 1 (numeral n) XOR 0x07
      else push_bit 1 (numeral n))"
  and crc8_bit_step_0: "crc8_bit_step 0 = 0"
  and crc8_bit_step_1: "crc8_bit_step 1 = 2"
  by (simp_all add: crc8_bit_step_def)

lemma upt_0_16: "[0..<16] = 0 # 1 # [2..<16]"
  by (simp add: upt_conv_Cons)

text \<open>Sixteen entries at a time, each computed bit by bit.\<close>

lemma crc8_row_0:
  "map (\<lambda>i. crc8_bitwise_update 0 (of_nat i)) [0..<16] =
     [0x00, 0x07, 0x0E, 0x09, 0x1C, 0x1B, 0x12, 0x15, 0x38, 0x3F, 0x36, 0x31, 0x24, 0x23, 0x2A, 0x2D]"
  by (simp add: upt_0_16 crc8_bitwise_update_def funpow_8 crc8_bit_step_numeral crc8_bit_step_0 crc8_bit_step_1)

lemma crc8_row_1:
  "map (\<lambda>i. crc8_bitwise_update 0 (of_nat i)) [16..<32] =
     [0x70, 0x77, 0x7E, 0x79, 0x6C, 0x6B, 0x62, 0x65, 0x48, 0x4F, 0x46, 0x41, 0x54, 0x53, 0x5A, 0x5D]"
  by (simp add: upt_0_16 crc8_bitwise_update_def funpow_8 crc8_bit_step_numeral crc8_bit_step_0 crc8_bit_step_1)

lemma crc8_row_2:
  "map (\<lambda>i. crc8_bitwise_update 0 (of_nat i)) [32..<48] =
     [0xE0, 0xE7, 0xEE, 0xE9, 0xFC, 0xFB, 0xF2, 0xF5, 0xD8, 0xDF, 0xD6, 0xD1, 0xC4, 0xC3, 0xCA, 0xCD]"
  by (simp add: upt_0_16 crc8_bitwise_update_def funpow_8 crc8_bit_step_numeral crc8_bit_step_0 crc8_bit_step_1)

lemma crc8_row_3:
  "map (\<lambda>i. crc8_bitwise_update 0 (of_nat i)) [48..<64] =
     [0x90, 0x97, 0x9E, 0x99, 0x8C, 0x8B, 0x82, 0x85, 0xA8, 0xAF, 0xA6, 0xA1, 0xB4, 0xB3, 0xBA, 0xBD]"
  by (simp add: upt_0_16 crc8_bitwise_update_def funpow_8 crc8_bit_step_numeral crc8_bit_step_0 crc8_bit_step_1)

lemma crc8_row_4:
  "map (\<lambda>i. crc8_bitwise_update 0 (of_nat i)) [64..<80] =
     [0xC7, 0xC0, 0xC9, 0xCE, 0xDB, 0xDC, 0xD5, 0xD2, 0xFF, 0xF8, 0xF1, 0xF6, 0xE3, 0xE4, 0xED, 0xEA]"
  by (simp add: upt_0_16 crc8_bitwise_update_def funpow_8 crc8_bit_step_numeral crc8_bit_step_0 crc8_bit_step_1)

lemma crc8_row_5:
  "map (\<lambda>i. crc8_bitwise_update 0 (of_nat i)) [80..<96] =
     [0xB7, 0xB0, 0xB9, 0xBE, 0xAB, 0xAC, 0xA5, 0xA2, 0x8F, 0x88, 0x81, 0x86, 0x93, 0x94, 0x9D, 0x9A]"
  by (simp add: upt_0_16 crc8_bitwise_update_def funpow_8 crc8_bit_step_numeral crc8_bit_step_0 crc8_bit_step_1)

lemma crc8_row_6:
  "map (\<lambda>i. crc8_bitwise_update 0 (of_nat i)) [96..<112] =
     [0x27, 0x20, 0x29, 0x2E, 0x3B, 0x3C, 0x35, 0x32, 0x1F, 0x18, 0x11, 0x16, 0x03, 0x04, 0x0D, 0x0A]"
  by (simp add: upt_0_16 crc8_bitwise_update_def funpow_8 crc8_bit_step_numeral crc8_bit_step_0 crc8_bit_step_1)

lemma crc8_row_7:
  "map (\<lambda>i. crc8_bitwise_update 0 (of_nat i)) [112..<128] =
     [0x57, 0x50, 0x59, 0x5E, 0x4B, 0x4C, 0x45, 0x42, 0x6F, 0x68, 0x61, 0x66, 0x73, 0x74, 0x7D, 0x7A]"
  by (simp add: upt_0_16 crc8_bitwise_update_def funpow_8 crc8_bit_step_numeral crc8_bit_step_0 crc8_bit_step_1)

lemma crc8_row_8:
  "map (\<lambda>i. crc8_bitwise_update 0 (of_nat i)) [128..<144] =
     [0x89, 0x8E, 0x87, 0x80, 0x95, 0x92, 0x9B, 0x9C, 0xB1, 0xB6, 0xBF, 0xB8, 0xAD, 0xAA, 0xA3, 0xA4]"
  by (simp add: upt_0_16 crc8_bitwise_update_def funpow_8 crc8_bit_step_numeral crc8_bit_step_0 crc8_bit_step_1)

lemma crc8_row_9:
  "map (\<lambda>i. crc8_bitwise_update 0 (of_nat i)) [144..<160] =
     [0xF9, 0xFE, 0xF7, 0xF0, 0xE5, 0xE2, 0xEB, 0xEC, 0xC1, 0xC6, 0xCF, 0xC8, 0xDD, 0xDA, 0xD3, 0xD4]"
  by (simp add: upt_0_16 crc8_bitwise_update_def funpow_8 crc8_bit_step_numeral crc8_bit_step_0 crc8_bit_step_1)

lemma crc8_row_10:
  "map (\<lambda>i. crc8_bitwise_update 0 (of_nat i)) [160..<176] =
     [0x69, 0x6E, 0x67, 0x60, 0x75, 0x72, 0x7B, 0x7C, 0x51, 0x56, 0x5F, 0x58, 0x4D, 0x4A, 0x43, 0x44]"
  by (simp add: upt_0_16 crc8_bitwise_update_def funpow_8 crc8_bit_step_numeral crc8_bit_step_0 crc8_bit_step_1)

lemma crc8_row_11:
  "map (\<lambda>i. crc8_bitwise_update 0 (of_nat i)) [176..<192] =
     [0x19, 0x1E, 0x17, 0x10, 0x05, 0x02, 0x0B, 0x0C, 0x21, 0x26, 0x2F, 0x28, 0x3D, 0x3A, 0x33, 0x34]"
  by (simp add: upt_0_16 crc8_bitwise_update_def funpow_8 crc8_bit_step_numeral crc8_bit_step_0 crc8_bit_step_1)

lemma crc8_row_12:
  "map (\<lambda>i. crc8_bitwise_update 0 (of_nat i)) [192..<208] =
     [0x4E, 0x49, 0x40, 0x47, 0x52, 0x55, 0x5C, 0x5B, 0x76, 0x71, 0x78, 0x7F, 0x6A, 0x6D, 0x64, 0x63]"
  by (simp add: upt_0_16 crc8_bitwise_update_def funpow_8 crc8_bit_step_numeral crc8_bit_step_0 crc8_bit_step_1)

lemma crc8_row_13:
  "map (\<lambda>i. crc8_bitwise_update 0 (of_nat i)) [208..<224] =
     [0x3E, 0x39, 0x30, 0x37, 0x22, 0x25, 0x2C, 0x2B, 0x06, 0x01, 0x08, 0x0F, 0x1A, 0x1D, 0x14, 0x13]"
  by (simp add: upt_0_16 crc8_bitwise_update_def funpow_8 crc8_bit_step_numeral crc8_bit_step_0 crc8_bit_step_1)

lemma crc8_row_14:
  "map (\<lambda>i. crc8_bitwise_update 0 (of_nat i)) [224..<240] =
     [0xAE, 0xA9, 0xA0, 0xA7, 0xB2, 0xB5, 0xBC, 0xBB, 0x96, 0x91, 0x98, 0x9F, 0x8A, 0x8D, 0x84, 0x83]"
  by (simp add: upt_0_16 crc8_bitwise_update_def funpow_8 crc8_bit_step_numeral crc8_bit_step_0 crc8_bit_step_1)

lemma crc8_row_15:
  "map (\<lambda>i. crc8_bitwise_update 0 (of_nat i)) [240..<256] =
     [0xDE, 0xD9, 0xD0, 0xD7, 0xC2, 0xC5, 0xCC, 0xCB, 0xE6, 0xE1, 0xE8, 0xEF, 0xFA, 0xFD, 0xF4, 0xF3]"
  by (simp add: upt_0_16 crc8_bitwise_update_def funpow_8 crc8_bit_step_numeral crc8_bit_step_0 crc8_bit_step_1)

lemma upt_256:
  "[0..<256] =
     [0..<16] @ [16..<32] @ [32..<48] @ [48..<64] @ [64..<80] @
     [80..<96] @ [96..<112] @ [112..<128] @ [128..<144] @
     [144..<160] @ [160..<176] @ [176..<192] @ [192..<208] @
     [208..<224] @ [224..<240] @ [240..<256]"
proof -
  have j: "\<And>i j k :: nat. i \<le> j \<Longrightarrow> j \<le> k \<Longrightarrow> [i..<j] @ [j..<k] = [i..<k]"
    using upt_add_eq_append by (metis le_add_diff_inverse)
  show ?thesis by (simp add: j del: upt_rec_numeral)
qed

lemma crc8_table_eq_map:
  "map (\<lambda>i. crc8_bitwise_update 0 (of_nat i)) [0..<256] = crc8_table"
  unfolding upt_256 map_append
    crc8_row_0 crc8_row_1 crc8_row_2 crc8_row_3 crc8_row_4 crc8_row_5 crc8_row_6 crc8_row_7 crc8_row_8
    crc8_row_9 crc8_row_10 crc8_row_11 crc8_row_12 crc8_row_13 crc8_row_14 crc8_row_15
  by (simp add: crc8_table_def)

lemma length_crc8_table: "length crc8_table = 256"
  by (simp add: crc8_table_def)

lemma crc8_table_nth: "crc8_table ! unat b = crc8_bitwise_update 0 b"
proof -
  have "unat b < 256" using unsigned_less [of b] by simp
  then have "map (\<lambda>i. crc8_bitwise_update 0 (of_nat i)) [0..<256] ! unat b =
      crc8_bitwise_update 0 (of_nat (unat b))"
    by (simp del: upt_rec_numeral)
  then show ?thesis by (simp add: crc8_table_eq_map)
qed

lemma el_crc8_update_bitwise: "el_crc8_update crc byte = crc8_bitwise_update crc byte"
  by (simp add: el_crc8_update_def crc8_table_nth crc8_bitwise_update_def)

lemma el_crc8_fold: "el_crc8 data = fold (\<lambda>byte crc. el_crc8_update crc byte) data 0"
  by (simp add: el_crc8_def el_crc8_update_def)

text \<open>
  Claim C3. For every byte sequence, \<open>el_crc8\<close> is the reference bitwise CRC-8
  (polynomial 0x07, initial value 0x00, most significant bit first): the table has 256
  entries, the entry at every index \<open>b\<close> is the result of the eight bitwise steps on
  \<open>b\<close>, one table-driven update is one bitwise update, and the table-driven fold
  computes what the bitwise algorithm computes.
\<close>

theorem el_crc8_is_bitwise_crc8:
  "el_crc8 data = crc8_bitwise data
   \<and> length crc8_table = 256
   \<and> crc8_table ! unat b = (crc8_bit_step ^^ 8) b
   \<and> el_crc8_update crc byte = crc8_bitwise_update crc byte"
proof -
  have "crc8_table ! unat b = (crc8_bit_step ^^ 8) b"
    using crc8_table_nth [of b] by (simp add: crc8_bitwise_update_def)
  moreover have "el_crc8 data = crc8_bitwise data"
    by (simp add: el_crc8_fold crc8_bitwise_def el_crc8_update_bitwise)
  ultimately show ?thesis
    by (simp add: length_crc8_table el_crc8_update_bitwise)
qed

subsection \<open>The update is injective\<close>

lemma xor_cancel_right: "(x :: uint8_t) XOR k = y XOR k \<Longrightarrow> x = y"
proof -
  assume "x XOR k = y XOR k"
  then have "(x XOR k) XOR k = (y XOR k) XOR k" by simp
  then show "x = y" by (simp add: xor.assoc)
qed

lemma bit_push_bit_1: "bit (push_bit 1 (c :: uint8_t)) n = (0 < n \<and> n < 8 \<and> bit c (n - 1))"
  unfolding bit_push_bit_iff by (auto simp: Suc_le_eq dest: bit_imp_le_length)

text \<open>The lowest bit of a step's result is the bit the step shifted out.\<close>

lemma bit_0_crc8_bit_step: "bit (crc8_bit_step c) 0 = bit c 7"
proof (cases "bit c 7")
  case True
  then have "crc8_bit_step c = push_bit 1 c XOR 7"
    by (simp only: crc8_bit_step_def if_True)
  moreover have "bit (push_bit 1 c XOR (7 :: uint8_t)) 0"
    unfolding bit_xor_iff bit_push_bit_1 by simp
  ultimately show ?thesis using True by simp
next
  case False
  then have "crc8_bit_step c = push_bit 1 c"
    by (simp only: crc8_bit_step_def if_False)
  moreover have "\<not> bit (push_bit 1 c) 0"
    unfolding bit_push_bit_1 by simp
  ultimately show ?thesis using False by simp
qed

lemma crc8_bit_step_inj: "crc8_bit_step a = crc8_bit_step b \<Longrightarrow> a = b"
proof -
  assume eq: "crc8_bit_step a = crc8_bit_step b"
  have b7: "bit a 7 = bit b 7"
    using bit_0_crc8_bit_step [of a] bit_0_crc8_bit_step [of b] eq by simp
  have pb: "push_bit 1 a = push_bit 1 b"
    using eq b7 by (auto simp: crc8_bit_step_def split: if_splits dest: xor_cancel_right)
  show "a = b"
  proof (rule bit_word_eqI)
    fix n assume "n < LENGTH(8)"
    then have n: "n < 8" by simp
    show "bit a n = bit b n"
    proof (cases "n = 7")
      case True
      then show ?thesis using b7 by simp
    next
      case False
      with n have "Suc n < 8" by simp
      moreover have "bit (push_bit 1 a) (Suc n) = bit (push_bit 1 b) (Suc n)"
        using pb by simp
      ultimately show ?thesis by (simp only: bit_push_bit_1) simp
    qed
  qed
qed

lemma crc8_bit_step_funpow_inj:
  "(crc8_bit_step ^^ n) a = (crc8_bit_step ^^ n) b \<Longrightarrow> a = b"
  by (induction n) (auto dest: crc8_bit_step_inj)

lemma el_crc8_update_inj:
  "el_crc8_update c b = el_crc8_update c' b' \<longleftrightarrow> c XOR b = c' XOR b'"
proof
  assume "el_crc8_update c b = el_crc8_update c' b'"
  then have "(crc8_bit_step ^^ 8) (c XOR b) = (crc8_bit_step ^^ 8) (c' XOR b')"
    by (simp add: el_crc8_update_bitwise crc8_bitwise_update_def)
  then show "c XOR b = c' XOR b'"
    by (rule crc8_bit_step_funpow_inj)
next
  assume "c XOR b = c' XOR b'"
  then show "el_crc8_update c b = el_crc8_update c' b'"
    by (simp add: el_crc8_update_def)
qed

section \<open>The frame parser\<close>

subsection \<open>Running the parser over a frame\<close>

lemma el_process_bytes_append:
  "el_process_bytes ctx (xs @ ys) =
     (case el_process_bytes ctx xs of
        Inl f \<Rightarrow> Inl f
      | Inr (ctx', calls) \<Rightarrow>
          (case el_process_bytes ctx' ys of
             Inl f \<Rightarrow> Inl f
           | Inr (ctx'', calls') \<Rightarrow> Inr (ctx'', calls @ calls')))"
  by (induction xs arbitrary: ctx) (auto split: sum.splits)

lemma unat_succ_u8: "unat (i :: uint8_t) < 255 \<Longrightarrow> unat (i + 1) = Suc (unat i)"
  by (simp add: unat_word_ariths)

lemma idle_skips_noise:
  "state ctx = EL_STATE_IDLE \<Longrightarrow> EL_SYNC_BYTE \<notin> set ns \<Longrightarrow>
   el_process_bytes (Some ctx) ns = Inr (Some ctx, [])"
  by (induction ns) auto

lemma payload_step_last:
  assumes "state ctx = EL_STATE_GOT_LEN"
    and "Suc (unat (payload_idx ctx)) = unat (payload_len ctx)"
    and "unat (payload_len ctx) \<le> EL_MAX_PAYLOAD"
  shows "el_process_byte (Some ctx) b =
     Inr (Some (ctx\<lparr>rx_buffer := (rx_buffer ctx)[unat (payload_idx ctx) := b],
                      payload_idx := payload_len ctx,
                      running_crc := el_crc8_update (running_crc ctx) b,
                      state := EL_STATE_GOT_PAYLOAD\<rparr>), [])"
proof -
  have lt: "unat (payload_idx ctx) < 250" using assms by (simp add: EL_MAX_PAYLOAD_def)
  then have "unat (payload_idx ctx + 1) = unat (payload_len ctx)"
    using assms(2) by (simp add: unat_succ_u8)
  then have eq: "payload_idx ctx + 1 = payload_len ctx" by (simp add: word_unat_eq_iff)
  show ?thesis using assms(1) lt eq by (simp add: EL_MAX_PAYLOAD_def Let_def)
qed

lemma payload_step_more:
  assumes "state ctx = EL_STATE_GOT_LEN"
    and "Suc (unat (payload_idx ctx)) < unat (payload_len ctx)"
    and "unat (payload_len ctx) \<le> EL_MAX_PAYLOAD"
  shows "el_process_byte (Some ctx) b =
     Inr (Some (ctx\<lparr>rx_buffer := (rx_buffer ctx)[unat (payload_idx ctx) := b],
                      payload_idx := payload_idx ctx + 1,
                      running_crc := el_crc8_update (running_crc ctx) b\<rparr>), [])"
proof -
  have lt: "unat (payload_idx ctx) < 250" using assms by (simp add: EL_MAX_PAYLOAD_def)
  then have "unat (payload_idx ctx + 1) < unat (payload_len ctx)"
    using assms(2) by (simp add: unat_succ_u8)
  then have eq: "\<not> payload_len ctx \<le> payload_idx ctx + 1" by (simp add: word_le_nat_alt)
  show ?thesis using assms(1) lt eq by (simp add: EL_MAX_PAYLOAD_def Let_def)
qed


lemma payload_loop:
  assumes "state ctx = EL_STATE_GOT_LEN"
    and "q \<noteq> []"
    and "unat (payload_idx ctx) + length q = unat (payload_len ctx)"
    and "unat (payload_len ctx) \<le> EL_MAX_PAYLOAD"
    and "length (rx_buffer ctx) = EL_MAX_PAYLOAD"
  shows "el_process_bytes (Some ctx) q =
     Inr (Some (ctx\<lparr>rx_buffer := take (unat (payload_idx ctx)) (rx_buffer ctx) @ q @
                                    drop (unat (payload_len ctx)) (rx_buffer ctx),
                      payload_idx := payload_len ctx,
                      running_crc := fold (\<lambda>byte crc. el_crc8_update crc byte) q (running_crc ctx),
                      state := EL_STATE_GOT_PAYLOAD\<rparr>), [])"
  using assms
proof (induction q arbitrary: ctx)
  case Nil
  then show ?case by simp
next
  case (Cons b q)
  let ?i = "unat (payload_idx ctx)"
  let ?buf = "rx_buffer ctx"
  have i_lt: "?i < length ?buf" using Cons.prems by simp
  show ?case
  proof (cases "q = []")
    case True
    have "Suc ?i = unat (payload_len ctx)" using Cons.prems True by simp
    moreover have "?buf[?i := b] = take ?i ?buf @ [b] @ drop (Suc ?i) ?buf"
      using i_lt by (simp add: upd_conv_take_nth_drop)
    ultimately show ?thesis
      using True payload_step_last [OF Cons.prems(1) _ Cons.prems(4), of b] by simp
  next
    case False
    let ?ctx1 = "ctx\<lparr>rx_buffer := ?buf[?i := b], payload_idx := payload_idx ctx + 1,
                       running_crc := el_crc8_update (running_crc ctx) b\<rparr>"
    have more: "Suc ?i < unat (payload_len ctx)"
      using Cons.prems False by (cases q) auto
    have step: "el_process_byte (Some ctx) b = Inr (Some ?ctx1, [])"
      using payload_step_more [OF Cons.prems(1) more Cons.prems(4)] .
    have i1: "unat (payload_idx ctx + 1) = Suc ?i"
      using more Cons.prems(4) by (simp add: unat_succ_u8 EL_MAX_PAYLOAD_def)
    have rest: "el_process_bytes (Some ?ctx1) q =
       Inr (Some (?ctx1\<lparr>rx_buffer := take (unat (payload_idx ?ctx1)) (rx_buffer ?ctx1) @ q @
                                    drop (unat (payload_len ?ctx1)) (rx_buffer ?ctx1),
                      payload_idx := payload_len ?ctx1,
                      running_crc := fold (\<lambda>byte crc. el_crc8_update crc byte) q (running_crc ?ctx1),
                      state := EL_STATE_GOT_PAYLOAD\<rparr>), [])"
      using Cons.prems False i1 by (intro Cons.IH) simp_all
    have tk: "take (Suc ?i) (?buf[?i := b]) = take ?i ?buf @ [b]"
      using i_lt by (simp add: take_Suc_conv_app_nth)
    have dr: "drop (unat (payload_len ctx)) (?buf[?i := b]) = drop (unat (payload_len ctx)) ?buf"
      using more by simp
    show ?thesis
      using step rest i1 tk dr by simp
  qed
qed


lemma el_crc8_header:
  "el_crc8 (m # l # p) =
     fold (\<lambda>byte crc. el_crc8_update crc byte) p (el_crc8_update (el_crc8_update 0 m) l)"
  by (simp add: el_crc8_fold)

lemma header_steps:
  assumes "state ctx = EL_STATE_IDLE"
  shows "el_process_bytes (Some ctx) [EL_SYNC_BYTE, m, l] =
    (let ctx = ctx\<lparr>msg_id := m, payload_len := l,
                     running_crc := el_crc8_update (el_crc8_update 0 m) l\<rparr>
     in if unat l > EL_MAX_PAYLOAD
        then Inr (Some (ctx\<lparr>rx_errors := rx_errors ctx + 1, state := EL_STATE_IDLE\<rparr>), [])
        else if l = 0 then Inr (Some (ctx\<lparr>state := EL_STATE_GOT_PAYLOAD\<rparr>), [])
        else Inr (Some (ctx\<lparr>payload_idx := 0, state := EL_STATE_GOT_LEN\<rparr>), []))"
  using assms by (simp add: Let_def)

lemma run_frame:
  assumes idle: "state ctx = EL_STATE_IDLE"
    and len: "unat l = length p"
    and max: "length p \<le> EL_MAX_PAYLOAD"
    and buf: "length (rx_buffer ctx) = EL_MAX_PAYLOAD"
  shows "el_process_bytes (Some ctx) (EL_SYNC_BYTE # m # l # p @ [c]) =
    (let buf = p @ drop (length p) (rx_buffer ctx);
         ctx' = ctx\<lparr>msg_id := m, payload_len := l,
                      payload_idx := (if p = [] then payload_idx ctx else l),
                      rx_buffer := buf,
                      running_crc := el_crc8 (m # l # p)\<rparr>
     in if c = el_crc8 (m # l # p)
        then Inr (Some (ctx'\<lparr>rx_frames := rx_frames ctx + 1\<rparr>),
                  if on_message ctx \<noteq> None then [(m, buf, l)] else [])
        else Inr (Some (ctx'\<lparr>rx_errors := rx_errors ctx + 1\<rparr>), []))"
proof (cases "p = []")
  case True
  then have l0: "l = 0" using len by (simp add: unat_eq_0)
  have split: "EL_SYNC_BYTE # m # l # p @ [c] = [EL_SYNC_BYTE, m, l] @ [c]"
    using True by simp
  show ?thesis
    unfolding split el_process_bytes_append header_steps [OF idle]
    using True l0 idle by (simp add: Let_def el_crc8_header EL_MAX_PAYLOAD_def)
next
  case False
  then have l0: "l \<noteq> 0" using len by (auto simp: unat_eq_0)
  have notbig: "\<not> unat l > EL_MAX_PAYLOAD" using len max by simp
  let ?h = "ctx\<lparr>msg_id := m, payload_len := l,
                 running_crc := el_crc8_update (el_crc8_update 0 m) l,
                 payload_idx := 0, state := EL_STATE_GOT_LEN\<rparr>"
  have hdr: "el_process_bytes (Some ctx) [EL_SYNC_BYTE, m, l] = Inr (Some ?h, [])"
    using header_steps [OF idle, of m l] l0 notbig by (simp add: Let_def)
  have loop: "el_process_bytes (Some ?h) p =
     Inr (Some (?h\<lparr>rx_buffer := take (unat (payload_idx ?h)) (rx_buffer ?h) @ p @
                                    drop (unat (payload_len ?h)) (rx_buffer ?h),
                      payload_idx := payload_len ?h,
                      running_crc := fold (\<lambda>byte crc. el_crc8_update crc byte) p (running_crc ?h),
                      state := EL_STATE_GOT_PAYLOAD\<rparr>), [])"
    using False len max buf by (intro payload_loop) simp_all
  have split: "EL_SYNC_BYTE # m # l # p @ [c] = [EL_SYNC_BYTE, m, l] @ p @ [c]"
    by simp
  show ?thesis
    unfolding split el_process_bytes_append hdr
    using loop False len idle by (simp add: Let_def el_crc8_header)
qed

section \<open>The frame encoder\<close>

lemma unat_of_nat_payload:
  "n \<le> EL_MAX_PAYLOAD \<Longrightarrow> unat (of_nat n :: uint8_t) = n"
  by (simp add: EL_MAX_PAYLOAD_def unat_of_nat)

lemma el_send_frame:
  assumes sink: "send_bytes ctx \<noteq> None"
    and max: "length p \<le> EL_MAX_PAYLOAD"
    and ptr: "payload = Some p \<or> (payload = None \<and> p = [])"
  shows "el_send (Some ctx) m payload (of_nat (length p)) =
     (True, Some (ctx\<lparr>tx_frames := tx_frames ctx + 1\<rparr>),
      [EL_SYNC_BYTE # m # of_nat (length p) # p @ [el_crc8 (m # of_nat (length p) # p)]])"
proof -
  let ?l = "of_nat (length p) :: uint8_t"
  have u: "unat ?l = length p" using max by (rule unat_of_nat_payload)
  show ?thesis
  proof (cases "p = []")
    case True
    then show ?thesis using sink by (simp add: Let_def EL_MAX_PAYLOAD_def)
  next
    case False
    then have pos: "0 < ?l" using u by (simp add: word_less_nat_alt)
    have some: "payload = Some p" using ptr False by simp
    have "unat (3 + ?l + 1) = length p + 4"
      using u max by (simp add: unat_word_ariths EL_MAX_PAYLOAD_def)
    moreover have "\<not> EL_MAX_PAYLOAD < unat ?l" using u max by simp
    ultimately show ?thesis
      using sink pos some u by (simp add: Let_def)
  qed
qed

lemma el_init_fresh:
  assumes "el_init mem (Some config) = (True, Some ctx)"
  shows "ctx = \<lparr> on_message = config_on_message config, send_bytes = config_send_bytes config,
       state = EL_STATE_IDLE, msg_id = 0, payload_len = 0, payload_idx = 0,
       rx_buffer = replicate EL_MAX_PAYLOAD 0, running_crc = 0, rx_frames = 0,
       rx_errors = 0, tx_frames = 0 \<rparr>"
    and "config_on_message config \<noteq> None" and "config_send_bytes config \<noteq> None"
  using assms by (cases mem; auto split: if_splits)+

lemma el_init_example: "el_init (Some zeroed_ctx) (Some example_config) = (True, Some fresh_ctx)"
  by (simp add: zeroed_ctx_def example_config_def fresh_ctx_def)

section \<open>Round trip\<close>



lemma el_crc8_bitwise: "el_crc8 data = crc8_bitwise data"
  by (simp add: el_crc8_fold crc8_bitwise_def el_crc8_update_bitwise)

lemmas crc8_eval =
  el_crc8_fold el_crc8_update_bitwise crc8_bitwise_update_def funpow_8
  crc8_bit_step_numeral crc8_bit_step_0 crc8_bit_step_1

lemma el_crc8_example: "el_crc8 [0x10, 0x03, 0x01, 0x02, 0x03] = 0x40"
  by (simp add: crc8_eval)

section \<open>Encoding\<close>

text \<open>
  Claim C6. On a ready context (one whose byte sink is set), for every message id
  \<open>m\<close> and payload \<open>p\<close> of at most 250 bytes (the pointer may be null only when \<open>p\<close>
  is empty), \<open>el_send\<close> returns true, adds one to \<open>tx_frames\<close>, changes nothing else,
  and calls the sink exactly once, with the bytes 0xA5, \<open>m\<close>, \<open>|p|\<close>, the payload, and
  the CRC-8 (polynomial 0x07, initial value 0) of \<open>m\<close>, \<open>|p|\<close> and the payload. For
  \<open>m = 0x10\<close> and the payload 01 02 03 the bytes are A5 10 03 01 02 03 followed by
  the CRC of 10 03 01 02 03.
\<close>

theorem el_send_emits_one_frame:
  assumes sink: "send_bytes ctx \<noteq> None"
    and max: "length p \<le> EL_MAX_PAYLOAD"
    and ptr: "payload = Some p \<or> (payload = None \<and> p = [])"
  shows "el_send (Some ctx) m payload (of_nat (length p)) =
      (True, Some (ctx\<lparr>tx_frames := tx_frames ctx + 1\<rparr>),
       [[0xA5, m, of_nat (length p)] @ p @ [crc8_bitwise ([m, of_nat (length p)] @ p)]])
    \<and> el_send (Some ctx) 0x10 (Some [0x01, 0x02, 0x03]) 3 =
      (True, Some (ctx\<lparr>tx_frames := tx_frames ctx + 1\<rparr>),
       [[0xA5, 0x10, 0x03, 0x01, 0x02, 0x03, crc8_bitwise [0x10, 0x03, 0x01, 0x02, 0x03]]])"
proof -
  have general: "el_send (Some ctx) m payload (of_nat (length p)) =
      (True, Some (ctx\<lparr>tx_frames := tx_frames ctx + 1\<rparr>),
       [[0xA5, m, of_nat (length p)] @ p @ [crc8_bitwise ([m, of_nat (length p)] @ p)]])"
    using el_send_frame [OF sink max ptr, of m]
    by (simp add: el_crc8_bitwise EL_SYNC_BYTE_def)
  have "length [0x01, 0x02, 0x03 :: uint8_t] \<le> EL_MAX_PAYLOAD"
    by (simp add: EL_MAX_PAYLOAD_def)
  then have "el_send (Some ctx) 0x10 (Some [0x01, 0x02, 0x03]) (of_nat (length [0x01, 0x02, 0x03 :: uint8_t])) =
      (True, Some (ctx\<lparr>tx_frames := tx_frames ctx + 1\<rparr>),
       [EL_SYNC_BYTE # 0x10 # of_nat (length [0x01, 0x02, 0x03 :: uint8_t]) # [0x01, 0x02, 0x03] @
        [el_crc8 (0x10 # of_nat (length [0x01, 0x02, 0x03 :: uint8_t]) # [0x01, 0x02, 0x03])]])"
    by (intro el_send_frame [OF sink]) simp_all
  then have example: "el_send (Some ctx) 0x10 (Some [0x01, 0x02, 0x03]) 3 =
      (True, Some (ctx\<lparr>tx_frames := tx_frames ctx + 1\<rparr>),
       [[0xA5, 0x10, 0x03, 0x01, 0x02, 0x03, crc8_bitwise [0x10, 0x03, 0x01, 0x02, 0x03]]])"
    by (simp add: el_crc8_bitwise EL_SYNC_BYTE_def)
  show ?thesis using general example by (rule conjI)
qed

text \<open>
  On the initialised example context the bytes are A5 10 03 01 02 03 40, and
  \<open>tx_frames\<close> goes from 0 to 1.
\<close>

theorem el_send_emits_one_frame_witness:
  "send_bytes fresh_ctx \<noteq> None
   \<and> length [0x01, 0x02, 0x03 :: uint8_t] \<le> EL_MAX_PAYLOAD
   \<and> el_send (Some fresh_ctx) 0x10 (Some [0x01, 0x02, 0x03]) 3 =
      (True, Some (fresh_ctx\<lparr>tx_frames := 1\<rparr>),
       [[0xA5, 0x10, 0x03, 0x01, 0x02, 0x03, 0x40]])"
proof -
  have s: "send_bytes fresh_ctx \<noteq> None" by (simp add: fresh_ctx_def)
  have m: "length [0x01, 0x02, 0x03 :: uint8_t] \<le> EL_MAX_PAYLOAD"
    by (simp add: EL_MAX_PAYLOAD_def)
  have p: "Some [0x01, 0x02, 0x03 :: uint8_t] = Some [0x01, 0x02, 0x03] \<or>
      (Some [0x01, 0x02, 0x03 :: uint8_t] = None \<and> [0x01, 0x02, 0x03 :: uint8_t] = [])"
    by simp
  have c: "crc8_bitwise [0x10, 0x03, 0x01, 0x02, 0x03] = 0x40"
    using el_crc8_example by (simp add: el_crc8_bitwise)
  have t: "tx_frames fresh_ctx = 0" by (simp add: fresh_ctx_def zeroed_ctx_def)
  show ?thesis
    using s m el_send_emits_one_frame [OF s m p, of "0x10"] c t by simp
qed

text \<open>
  Claim C7. On a ready context (one whose byte sink is set), \<open>el_send\<close> fails exactly
  when the payload length exceeds 250 or the payload pointer is null while the length
  is not zero; a failing call returns false, calls the sink zero times and leaves the
  whole context, its three counters included, as it was.
\<close>

theorem el_send_fails_exactly_when:
  assumes sink: "send_bytes ctx \<noteq> None"
  shows "(fst (el_send (Some ctx) m payload len) = False) =
      (EL_MAX_PAYLOAD < unat len \<or> (payload = None \<and> len \<noteq> 0))
    \<and> (fst (el_send (Some ctx) m payload len) = False \<longrightarrow>
         el_send (Some ctx) m payload len = (False, Some ctx, []))"
proof (cases "EL_MAX_PAYLOAD < unat len \<or> (payload = None \<and> len \<noteq> 0)")
  case True
  then have "el_send (Some ctx) m payload len = (False, Some ctx, [])"
    using sink by (auto simp: word_greater_zero_iff)
  then show ?thesis using True by simp
next
  case False
  then have "fst (el_send (Some ctx) m payload len) = True"
    using sink by (auto simp: Let_def word_greater_zero_iff split: prod.splits)
  then show ?thesis using False by simp
qed

text \<open>
  On the initialised example context: a null payload pointer with length 1 fails, and
  so does the length 251, each returning the context as it was; a null payload
  pointer with length 0 does not fail.
\<close>

theorem el_send_fails_exactly_when_witness:
  "send_bytes fresh_ctx \<noteq> None
   \<and> el_send (Some fresh_ctx) 0x10 None 1 = (False, Some fresh_ctx, [])
   \<and> EL_MAX_PAYLOAD < unat (251 :: uint8_t)
   \<and> el_send (Some fresh_ctx) 0x10 (Some []) 251 = (False, Some fresh_ctx, [])
   \<and> fst (el_send (Some fresh_ctx) 0x10 None 0) = True"
proof -
  have s: "send_bytes fresh_ctx \<noteq> None" by (simp add: fresh_ctx_def)
  have big: "EL_MAX_PAYLOAD < unat (251 :: uint8_t)" by (simp add: EL_MAX_PAYLOAD_def)
  have small: "\<not> (EL_MAX_PAYLOAD < unat (0 :: uint8_t) \<or>
      ((None :: uint8_t list option) = None \<and> (0 :: uint8_t) \<noteq> 0))" by simp
  have null: "(None :: uint8_t list option) = None \<and> (1 :: uint8_t) \<noteq> 0" by simp
  have a: "el_send (Some fresh_ctx) 0x10 None 1 = (False, Some fresh_ctx, [])"
    using el_send_fails_exactly_when [OF s, of "0x10" None 1] null by blast
  have b: "el_send (Some fresh_ctx) 0x10 (Some []) 251 = (False, Some fresh_ctx, [])"
    using el_send_fails_exactly_when [OF s, of "0x10" "Some []" 251] big by blast
  have c: "fst (el_send (Some fresh_ctx) 0x10 None 0) = True"
    using el_send_fails_exactly_when [OF s, of "0x10" None 0] small by blast
  show ?thesis using s big a b c by blast
qed

section \<open>Transitions of the parser\<close>

text \<open>
  Claim C2. In state GotPayload, on a context whose message callback is set: when the
  incoming byte equals the running CRC, \<open>rx_frames\<close> grows by one and the callback is
  called exactly once, within the call, with the message id, the receive buffer and
  the length; otherwise \<open>rx_errors\<close> grows by one and no callback is called. In both
  cases the state becomes Idle, and nothing else in the context changes.
\<close>

theorem got_payload_accepts_or_rejects:
  assumes st: "state ctx = EL_STATE_GOT_PAYLOAD"
    and cb: "on_message ctx \<noteq> None"
  shows "el_process_byte (Some ctx) byte =
     (if byte = running_crc ctx
      then Inr (Some (ctx\<lparr>rx_frames := rx_frames ctx + 1, state := EL_STATE_IDLE\<rparr>),
                [(msg_id ctx, rx_buffer ctx, payload_len ctx)])
      else Inr (Some (ctx\<lparr>rx_errors := rx_errors ctx + 1, state := EL_STATE_IDLE\<rparr>), []))"
  using st cb by (simp add: Let_def)

text \<open>
  The initialised example context put in GotPayload with running CRC 0x40: the byte
  0x40 is accepted, the byte 0x00 is rejected.
\<close>

theorem got_payload_accepts_or_rejects_witness:
  "state (fresh_ctx\<lparr>state := EL_STATE_GOT_PAYLOAD, running_crc := 0x40\<rparr>) = EL_STATE_GOT_PAYLOAD
   \<and> on_message (fresh_ctx\<lparr>state := EL_STATE_GOT_PAYLOAD, running_crc := 0x40\<rparr>) \<noteq> None
   \<and> el_process_byte (Some (fresh_ctx\<lparr>state := EL_STATE_GOT_PAYLOAD, running_crc := 0x40\<rparr>)) 0x40 =
       Inr (Some (fresh_ctx\<lparr>running_crc := 0x40, rx_frames := 1\<rparr>),
            [(0, replicate EL_MAX_PAYLOAD 0, 0)])
   \<and> el_process_byte (Some (fresh_ctx\<lparr>state := EL_STATE_GOT_PAYLOAD, running_crc := 0x40\<rparr>)) 0x00 =
       Inr (Some (fresh_ctx\<lparr>running_crc := 0x40, rx_errors := 1\<rparr>), [])"
  using got_payload_accepts_or_rejects
      [of "fresh_ctx\<lparr>state := EL_STATE_GOT_PAYLOAD, running_crc := 0x40\<rparr>" "0x40"]
    got_payload_accepts_or_rejects
      [of "fresh_ctx\<lparr>state := EL_STATE_GOT_PAYLOAD, running_crc := 0x40\<rparr>" "0x00"]
  by (simp add: fresh_ctx_def zeroed_ctx_def)

text \<open>
  Claim C9. In state Idle a byte other than the sync marker 0xA5 leaves the whole
  context as it was and calls no callback. So a run of such bytes is discarded, and
  whatever follows it (a valid frame in particular) is processed exactly as if the run
  had not been there: same resulting context, same callback calls with the same
  arguments.
\<close>

theorem idle_discards_non_sync:
  assumes idle: "state ctx = EL_STATE_IDLE"
  shows "(byte \<noteq> EL_SYNC_BYTE \<longrightarrow> el_process_byte (Some ctx) byte = Inr (Some ctx, []))
    \<and> (EL_SYNC_BYTE \<notin> set noise \<longrightarrow>
         el_process_bytes (Some ctx) noise = Inr (Some ctx, [])
       \<and> el_process_bytes (Some ctx) (noise @ data) = el_process_bytes (Some ctx) data)"
proof -
  have "el_process_bytes (Some ctx) (noise @ data) = el_process_bytes (Some ctx) data"
    if "EL_SYNC_BYTE \<notin> set noise"
    unfolding el_process_bytes_append idle_skips_noise [OF idle that]
    by (simp split: sum.splits)
  then show ?thesis using idle idle_skips_noise [OF idle] by simp
qed

text \<open>
  Three bytes of noise before the frame A5 10 00 57, on the initialised example
  context.
\<close>

theorem idle_discards_non_sync_witness:
  "state fresh_ctx = EL_STATE_IDLE
   \<and> el_process_byte (Some fresh_ctx) 0x00 = Inr (Some fresh_ctx, [])
   \<and> el_process_bytes (Some fresh_ctx) [0x00, 0xFF, 0x5A] = Inr (Some fresh_ctx, [])
   \<and> el_process_bytes (Some fresh_ctx) ([0x00, 0xFF, 0x5A] @ [0xA5, 0x10, 0x00, 0x57]) =
       el_process_bytes (Some fresh_ctx) [0xA5, 0x10, 0x00, 0x57]"
proof -
  have i: "state fresh_ctx = EL_STATE_IDLE" by (simp add: fresh_ctx_def zeroed_ctx_def)
  show ?thesis
    using i idle_discards_non_sync [OF i, of "0x00" "[0x00, 0xFF, 0x5A]" "[0xA5, 0x10, 0x00, 0x57]"]
    by (simp add: EL_SYNC_BYTE_def)
qed

text \<open>
  Claim C10. \<open>el_reset\<close> sets the state to Idle and zeroes the write cursor and the
  running CRC; the three counters, the receive buffer, the two callbacks (and the
  stored message id and length) stay as they were. On a context that is already
  idle with a zero cursor and a zero running CRC it changes nothing.
\<close>

theorem el_reset_effect:
  "\<exists>ctx'. el_reset (Some ctx) = Some ctx'
     \<and> state ctx' = EL_STATE_IDLE \<and> payload_idx ctx' = 0 \<and> running_crc ctx' = 0
     \<and> rx_frames ctx' = rx_frames ctx \<and> rx_errors ctx' = rx_errors ctx
     \<and> tx_frames ctx' = tx_frames ctx \<and> rx_buffer ctx' = rx_buffer ctx
     \<and> on_message ctx' = on_message ctx \<and> send_bytes ctx' = send_bytes ctx
     \<and> msg_id ctx' = msg_id ctx \<and> payload_len ctx' = payload_len ctx
     \<and> (state ctx = EL_STATE_IDLE \<and> payload_idx ctx = 0 \<and> running_crc ctx = 0 \<longrightarrow> ctx' = ctx)"
  by simp

text \<open>
  The initialised example context is idle with a zero cursor and a zero running CRC:
  resetting it gives the same context.
\<close>

theorem el_reset_effect_witness:
  "state fresh_ctx = EL_STATE_IDLE \<and> payload_idx fresh_ctx = 0 \<and> running_crc fresh_ctx = 0
   \<and> el_reset (Some fresh_ctx) = Some fresh_ctx"
  using el_reset_effect [of fresh_ctx] by (simp add: fresh_ctx_def zeroed_ctx_def)

section \<open>The write cursor stays inside the receive buffer\<close>

lemma el_process_byte_cursor:
  assumes inv: "state ctx = EL_STATE_GOT_LEN \<longrightarrow>
      payload_idx ctx < payload_len ctx \<and> unat (payload_len ctx) \<le> EL_MAX_PAYLOAD"
  shows "\<exists>ctx' calls. el_process_byte (Some ctx) byte = Inr (Some ctx', calls)
    \<and> (state ctx' = EL_STATE_GOT_LEN \<longrightarrow>
         payload_idx ctx' < payload_len ctx' \<and> unat (payload_len ctx') \<le> EL_MAX_PAYLOAD)
    \<and> length (rx_buffer ctx') = length (rx_buffer ctx)"
proof (cases "state ctx")
  case EL_STATE_IDLE
  then show ?thesis by simp
next
  case EL_STATE_GOT_SYNC
  then show ?thesis by simp
next
  case EL_STATE_GOT_ID
  then show ?thesis by (simp add: Let_def word_greater_zero_iff)
next
  case EL_STATE_GOT_LEN
  with inv have lt: "unat (payload_idx ctx) < unat (payload_len ctx)"
    and le: "unat (payload_len ctx) \<le> EL_MAX_PAYLOAD"
    by (simp_all add: word_less_nat_alt)
  then have "unat (payload_idx ctx) < 250" by (simp add: EL_MAX_PAYLOAD_def)
  then show ?thesis
    using EL_STATE_GOT_LEN le by (simp add: Let_def EL_MAX_PAYLOAD_def not_le)
next
  case EL_STATE_GOT_PAYLOAD
  then show ?thesis by (simp add: Let_def)
qed

lemma el_process_bytes_cursor:
  assumes "state ctx = EL_STATE_GOT_LEN \<longrightarrow>
      payload_idx ctx < payload_len ctx \<and> unat (payload_len ctx) \<le> EL_MAX_PAYLOAD"
  shows "\<exists>ctx' calls. el_process_bytes (Some ctx) data = Inr (Some ctx', calls)
    \<and> (state ctx' = EL_STATE_GOT_LEN \<longrightarrow>
         payload_idx ctx' < payload_len ctx' \<and> unat (payload_len ctx') \<le> EL_MAX_PAYLOAD)
    \<and> length (rx_buffer ctx') = length (rx_buffer ctx)"
  using assms
proof (induction data arbitrary: ctx)
  case Nil
  then show ?case by simp
next
  case (Cons b data)
  from el_process_byte_cursor [OF Cons.prems, of b]
  obtain c1 calls1 where s1: "el_process_byte (Some ctx) b = Inr (Some c1, calls1)"
    and i1: "state c1 = EL_STATE_GOT_LEN \<longrightarrow>
         payload_idx c1 < payload_len c1 \<and> unat (payload_len c1) \<le> EL_MAX_PAYLOAD"
    and l1: "length (rx_buffer c1) = length (rx_buffer ctx)"
    by blast
  from Cons.IH [OF i1]
  obtain c2 calls2 where s2: "el_process_bytes (Some c1) data = Inr (Some c2, calls2)"
    and i2: "state c2 = EL_STATE_GOT_LEN \<longrightarrow>
         payload_idx c2 < payload_len c2 \<and> unat (payload_len c2) \<le> EL_MAX_PAYLOAD"
    and l2: "length (rx_buffer c2) = length (rx_buffer c1)"
    by blast
  show ?case using s1 s2 i2 l1 l2 by simp
qed

text \<open>
  Claim C4. Starting from a context that \<open>el_init\<close> has initialised or \<open>el_reset\<close> has
  reset, after every sequence of input bytes the parser has made no write outside
  the receive buffer (the run ends in a context, not in the fault), and whenever the
  state it has reached is GotLen, \<open>payload_idx < payload_len \<le> 250\<close>, so that the
  next write, at \<open>payload_idx\<close>, is below 250 too. The receive buffer keeps its size:
  the parser uses the memory of the context and nothing more.
\<close>

theorem rx_buffer_writes_in_bounds:
  assumes start: "el_init mem (Some config) = (True, Some ctx) \<or> el_reset (Some ctx0) = Some ctx"
  shows "\<exists>ctx' calls. el_process_bytes (Some ctx) data = Inr (Some ctx', calls)
    \<and> (state ctx' = EL_STATE_GOT_LEN \<longrightarrow>
         payload_idx ctx' < payload_len ctx' \<and> unat (payload_len ctx') \<le> EL_MAX_PAYLOAD
         \<and> unat (payload_idx ctx') < EL_MAX_PAYLOAD)
    \<and> length (rx_buffer ctx') = length (rx_buffer ctx)"
proof -
  have "state ctx = EL_STATE_IDLE"
    using start el_init_fresh(1) [of mem config ctx] by auto
  then have "state ctx = EL_STATE_GOT_LEN \<longrightarrow>
      payload_idx ctx < payload_len ctx \<and> unat (payload_len ctx) \<le> EL_MAX_PAYLOAD"
    by simp
  from el_process_bytes_cursor [OF this, of data]
  obtain c calls where "el_process_bytes (Some ctx) data = Inr (Some c, calls)"
    and "state c = EL_STATE_GOT_LEN \<longrightarrow>
         payload_idx c < payload_len c \<and> unat (payload_len c) \<le> EL_MAX_PAYLOAD"
    and "length (rx_buffer c) = length (rx_buffer ctx)"
    by blast
  then show ?thesis by (auto simp: word_less_nat_alt)
qed

text \<open>
  After A5 10 03 01 the initialised example context is in GotLen, one byte into a
  payload of three.
\<close>

theorem rx_buffer_writes_in_bounds_witness:
  "el_init (Some zeroed_ctx) (Some example_config) = (True, Some fresh_ctx)
   \<and> (\<exists>ctx' calls. el_process_bytes (Some fresh_ctx) [0xA5, 0x10, 0x03, 0x01] = Inr (Some ctx', calls)
       \<and> state ctx' = EL_STATE_GOT_LEN
       \<and> payload_idx ctx' < payload_len ctx' \<and> unat (payload_len ctx') \<le> EL_MAX_PAYLOAD
       \<and> unat (payload_idx ctx') < EL_MAX_PAYLOAD
       \<and> length (rx_buffer ctx') = length (rx_buffer fresh_ctx))"
proof -
  have i: "el_init (Some zeroed_ctx) (Some example_config) = (True, Some fresh_ctx)"
    by (rule el_init_example)
  have st: "\<And>c calls. el_process_bytes (Some fresh_ctx) [0xA5, 0x10, 0x03, 0x01] = Inr (Some c, calls)
      \<Longrightarrow> state c = EL_STATE_GOT_LEN"
    by (auto simp: fresh_ctx_def zeroed_ctx_def EL_SYNC_BYTE_def EL_MAX_PAYLOAD_def Let_def word_le_nat_alt)
  from rx_buffer_writes_in_bounds [of "Some zeroed_ctx" example_config fresh_ctx zeroed_ctx
        "[0xA5, 0x10, 0x03, 0x01]"] i
  obtain c calls where r: "el_process_bytes (Some fresh_ctx) [0xA5, 0x10, 0x03, 0x01] = Inr (Some c, calls)"
    and inv: "state c = EL_STATE_GOT_LEN \<longrightarrow>
         payload_idx c < payload_len c \<and> unat (payload_len c) \<le> EL_MAX_PAYLOAD
         \<and> unat (payload_idx c) < EL_MAX_PAYLOAD"
    and len: "length (rx_buffer c) = length (rx_buffer fresh_ctx)"
    by blast
  have "state c = EL_STATE_GOT_LEN" using r by (rule st)
  with inv r len i show ?thesis by blast
qed

section \<open>Rejection and resynchronisation\<close>

text \<open>
  Claim C5. In state GotId a length byte above 250 adds one to \<open>rx_errors\<close> and puts
  the parser in Idle at once: no callback is called, no byte is written to the receive
  buffer, and the bytes that follow are not taken as payload. From there the first
  sync marker in the input, after any run of other bytes, starts a new parse: a
  valid frame \<open>m\<close>, \<open>p\<close> that begins at it is accepted (\<open>rx_frames\<close> grows by one, and the
  message callback, when set, is called once with \<open>m\<close>, \<open>p\<close> and \<open>|p|\<close>).
\<close>

theorem oversized_length_rejected_at_once:
  assumes st: "state ctx = EL_STATE_GOT_ID"
    and big: "EL_MAX_PAYLOAD < unat byte"
    and buf: "length (rx_buffer ctx) = EL_MAX_PAYLOAD"
    and noise: "EL_SYNC_BYTE \<notin> set noise"
    and max: "length p \<le> EL_MAX_PAYLOAD"
  shows "\<exists>ctx'. el_process_byte (Some ctx) byte = Inr (Some ctx', [])
    \<and> state ctx' = EL_STATE_IDLE
    \<and> rx_errors ctx' = rx_errors ctx + 1 \<and> rx_frames ctx' = rx_frames ctx
    \<and> rx_buffer ctx' = rx_buffer ctx \<and> payload_idx ctx' = payload_idx ctx
    \<and> (\<exists>ctx'' buffer.
          el_process_bytes (Some ctx')
            (noise @ EL_SYNC_BYTE # m # of_nat (length p) # p @
               [el_crc8 (m # of_nat (length p) # p)]) =
            Inr (Some ctx'',
                 if on_message ctx \<noteq> None then [(m, buffer, of_nat (length p))] else [])
        \<and> payload_view (m, buffer, of_nat (length p)) = p
        \<and> rx_frames ctx'' = rx_frames ctx + 1 \<and> rx_errors ctx'' = rx_errors ctx + 1
        \<and> state ctx'' = EL_STATE_IDLE)"
proof -
  let ?c1 = "ctx\<lparr>payload_len := byte, running_crc := el_crc8_update (running_crc ctx) byte,
                 rx_errors := rx_errors ctx + 1, state := EL_STATE_IDLE\<rparr>"
  let ?l = "of_nat (length p) :: uint8_t"
  let ?frame = "EL_SYNC_BYTE # m # ?l # p @ [el_crc8 (m # ?l # p)]"
  let ?buffer = "p @ drop (length p) (rx_buffer ctx)"
  have step: "el_process_byte (Some ctx) byte = Inr (Some ?c1, [])"
    using st big by (simp add: Let_def)
  have idle: "state ?c1 = EL_STATE_IDLE" by simp
  have u: "unat ?l = length p" using max by (rule unat_of_nat_payload)
  have b1: "length (rx_buffer ?c1) = EL_MAX_PAYLOAD" using buf by simp
  have skip: "el_process_bytes (Some ?c1) (noise @ ?frame) = el_process_bytes (Some ?c1) ?frame"
    unfolding el_process_bytes_append idle_skips_noise [OF idle noise]
    by (simp split: sum.splits)
  have run: "el_process_bytes (Some ?c1) ?frame =
      Inr (Some (?c1\<lparr>msg_id := m, payload_len := ?l,
                      payload_idx := (if p = [] then payload_idx ?c1 else ?l),
                      rx_buffer := ?buffer,
                      running_crc := el_crc8 (m # ?l # p),
                      rx_frames := rx_frames ctx + 1\<rparr>),
           if on_message ctx \<noteq> None then [(m, ?buffer, ?l)] else [])"
    using run_frame [OF idle u max b1, of m "el_crc8 (m # ?l # p)"]
    by (simp add: Let_def)
  have view: "payload_view (m, ?buffer, ?l) = p"
    using u by (simp add: payload_view_def)
  let ?c2 = "?c1\<lparr>msg_id := m, payload_len := ?l,
                   payload_idx := (if p = [] then payload_idx ?c1 else ?l),
                   rx_buffer := ?buffer,
                   running_crc := el_crc8 (m # ?l # p),
                   rx_frames := rx_frames ctx + 1\<rparr>"
  have inner: "el_process_bytes (Some ?c1) (noise @ ?frame) =
      Inr (Some ?c2, if on_message ctx \<noteq> None then [(m, ?buffer, ?l)] else [])"
    using skip run by simp
  show ?thesis
  proof (rule exI [of _ ?c1], intro conjI)
    show "\<exists>ctx'' buffer.
        el_process_bytes (Some ?c1) (noise @ ?frame) =
          Inr (Some ctx'', if on_message ctx \<noteq> None then [(m, buffer, ?l)] else [])
      \<and> payload_view (m, buffer, ?l) = p
      \<and> rx_frames ctx'' = rx_frames ctx + 1 \<and> rx_errors ctx'' = rx_errors ctx + 1
      \<and> state ctx'' = EL_STATE_IDLE"
      using inner view by (intro exI [of _ ?c2] exI [of _ ?buffer]) simp
  qed (rule step, simp_all)
qed

text \<open>
  The length byte 251 in GotId, then two bytes of noise and the valid frame
  A5 10 03 01 02 03 40.
\<close>

theorem oversized_length_rejected_at_once_witness:
  "state (fresh_ctx\<lparr>state := EL_STATE_GOT_ID\<rparr>) = EL_STATE_GOT_ID
   \<and> EL_MAX_PAYLOAD < unat (251 :: uint8_t)
   \<and> el_process_byte (Some (fresh_ctx\<lparr>state := EL_STATE_GOT_ID\<rparr>)) 251 =
       Inr (Some (fresh_ctx\<lparr>payload_len := 251, running_crc := el_crc8_update 0 251,
                             rx_errors := 1\<rparr>), [])
   \<and> (\<exists>ctx'' buffer.
          el_process_bytes
            (Some (fresh_ctx\<lparr>payload_len := 251, running_crc := el_crc8_update 0 251,
                             rx_errors := 1\<rparr>))
            [0x00, 0xFF, 0xA5, 0x10, 0x03, 0x01, 0x02, 0x03, 0x40] =
            Inr (Some ctx'', [(0x10, buffer, 3)])
        \<and> payload_view (0x10, buffer, 3) = [0x01, 0x02, 0x03]
        \<and> rx_frames ctx'' = 1 \<and> rx_errors ctx'' = 1 \<and> state ctx'' = EL_STATE_IDLE)"
proof -
  let ?c = "fresh_ctx\<lparr>state := EL_STATE_GOT_ID\<rparr>"
  have st: "state ?c = EL_STATE_GOT_ID" by simp
  have big: "EL_MAX_PAYLOAD < unat (251 :: uint8_t)" by (simp add: EL_MAX_PAYLOAD_def)
  have buf: "length (rx_buffer ?c) = EL_MAX_PAYLOAD" by (simp add: fresh_ctx_def zeroed_ctx_def)
  have noise: "EL_SYNC_BYTE \<notin> set [0x00, 0xFF]" by (simp add: EL_SYNC_BYTE_def)
  have max: "length [0x01, 0x02, 0x03 :: uint8_t] \<le> EL_MAX_PAYLOAD"
    by (simp add: EL_MAX_PAYLOAD_def)
  show ?thesis
    using st big oversized_length_rejected_at_once [OF st big buf noise max, of "0x10"]
    by (simp add: el_crc8_example fresh_ctx_def zeroed_ctx_def EL_SYNC_BYTE_def EL_MAX_PAYLOAD_def)
qed

section \<open>Checksum sensitivity\<close>

lemma crc_fold_state_inj:
  "fold (\<lambda>byte crc. el_crc8_update crc byte) q c =
   fold (\<lambda>byte crc. el_crc8_update crc byte) q c' \<Longrightarrow> c = c'"
proof (induction q arbitrary: c c')
  case Nil
  then show ?case by simp
next
  case (Cons b q)
  then have "el_crc8_update c b = el_crc8_update c' b" by simp
  then have "c XOR b = c' XOR b" by (simp add: el_crc8_update_inj)
  then show ?case by (rule xor_cancel_right)
qed

lemma el_crc8_single_byte:
  assumes "b \<noteq> b'"
  shows "el_crc8 (xs @ b # ys) \<noteq> el_crc8 (xs @ b' # ys)"
proof
  let ?s = "fold (\<lambda>byte crc. el_crc8_update crc byte) xs 0"
  assume "el_crc8 (xs @ b # ys) = el_crc8 (xs @ b' # ys)"
  then have "el_crc8_update ?s b = el_crc8_update ?s b'"
    by (auto simp: el_crc8_fold dest: crc_fold_state_inj)
  then have "?s XOR b = ?s XOR b'" by (simp add: el_crc8_update_inj)
  then have "b XOR ?s = b' XOR ?s" by (simp add: xor.commute)
  then have "b = b'" by (rule xor_cancel_right)
  with assms show False by simp
qed

lemma flip_bit_u8_neq: "i < 8 \<Longrightarrow> flip_bit i (b :: uint8_t) \<noteq> b"
proof
  assume i: "i < 8" and eq: "flip_bit i b = b"
  have "bit (flip_bit i b) i = (\<not> bit b i)" using i by (simp add: bit_flip_bit_iff)
  with eq show False by simp
qed

lemma run_frame_rejected:
  assumes idle: "state ctx = EL_STATE_IDLE"
    and len: "unat l = length p"
    and max: "length p \<le> EL_MAX_PAYLOAD"
    and buf: "length (rx_buffer ctx) = EL_MAX_PAYLOAD"
    and bad: "c \<noteq> el_crc8 (m # l # p)"
  shows "\<exists>ctx'. el_process_bytes (Some ctx) (EL_SYNC_BYTE # m # l # p @ [c]) = Inr (Some ctx', [])
    \<and> rx_errors ctx' = rx_errors ctx + 1 \<and> rx_frames ctx' = rx_frames ctx
    \<and> state ctx' = EL_STATE_IDLE"
  using run_frame [OF idle len max buf, of m c] bad idle by (simp add: Let_def)

lemma run_frame_accepted_crc:
  assumes idle: "state ctx = EL_STATE_IDLE"
    and len: "unat l = length p"
    and max: "length p \<le> EL_MAX_PAYLOAD"
    and buf: "length (rx_buffer ctx) = EL_MAX_PAYLOAD"
    and acc: "el_process_bytes (Some ctx) (EL_SYNC_BYTE # m # l # p @ [c]) = Inr (Some ctx1, [call])"
  shows "c = el_crc8 (m # l # p)"
proof (rule ccontr)
  assume "c \<noteq> el_crc8 (m # l # p)"
  from run_frame_rejected [OF idle len max buf this] acc show False by simp
qed

lemma frame_update_id: "(s # m # rest)[1 := v] = s # v # rest"
  by simp

lemma frame_update_body: "(s # m # l # rest)[Suc (Suc (Suc k)) := v] = s # m # l # rest[k := v]"
  by simp

text \<open>
  Claim C8, as the code has it. Take a valid frame: sync marker, message id, length,
  a payload of that length (at most 250 bytes) and a checksum, which a freshly
  initialised parser accepts with a callback. Flip any single bit of its message id
  (position 1), of a payload byte or of its checksum (positions 3 to \<open>3 + |p|\<close>) and
  feed the result to a freshly initialised parser: no callback is called,
  \<open>rx_errors\<close> goes from 0 to 1, \<open>rx_frames\<close> stays, and the parser is in Idle. The
  length byte (position 2) is left out: see the example after the theorem.
\<close>

theorem single_bit_error_rejected:
  assumes fresh: "el_init mem (Some config) = (True, Some ctx)"
    and shape: "frame = EL_SYNC_BYTE # m # l # p @ [c]"
    and len: "unat l = length p"
    and max: "length p \<le> EL_MAX_PAYLOAD"
    and valid: "el_process_bytes (Some ctx) frame = Inr (Some ctx1, [call])"
    and pos: "j = 1 \<or> (3 \<le> j \<and> j \<le> 3 + length p)"
    and bit: "i < 8"
  shows "\<exists>ctx'. el_process_bytes (Some ctx) (frame[j := flip_bit i (frame ! j)]) = Inr (Some ctx', [])
    \<and> rx_errors ctx' = rx_errors ctx + 1 \<and> rx_errors ctx' = 1
    \<and> rx_frames ctx' = rx_frames ctx \<and> state ctx' = EL_STATE_IDLE"
proof -
  have idle: "state ctx = EL_STATE_IDLE" and buf: "length (rx_buffer ctx) = EL_MAX_PAYLOAD"
    and zero: "rx_errors ctx = 0"
    using el_init_fresh(1) [OF fresh] by simp_all
  have crc: "c = el_crc8 (m # l # p)"
    using run_frame_accepted_crc [OF idle len max buf] valid shape by simp
  have "\<exists>m' p' c'. frame[j := flip_bit i (frame ! j)] = EL_SYNC_BYTE # m' # l # p' @ [c']
      \<and> length p' = length p \<and> c' \<noteq> el_crc8 (m' # l # p')"
  proof -
    define k where "k = j - 3"
    have "j = 1 \<or> (j = Suc (Suc (Suc k)) \<and> k < length p) \<or> j = Suc (Suc (Suc (length p)))"
      using pos unfolding k_def by arith
    then consider (id) "j = 1" | (payload) "j = Suc (Suc (Suc k))" "k < length p"
      | (checksum) "j = Suc (Suc (Suc (length p)))"
      by blast
    then show ?thesis
    proof cases
      case id
      have "el_crc8 ([] @ m # l # p) \<noteq> el_crc8 ([] @ flip_bit i m # l # p)"
        using flip_bit_u8_neq [OF bit, of m] by (intro el_crc8_single_byte) simp
      then show ?thesis
        using id shape crc by (intro exI [of _ "flip_bit i m"] exI [of _ p] exI [of _ c]) simp
    next
      case payload
      let ?p' = "p[k := flip_bit i (p ! k)]"
      have p: "p = take k p @ p ! k # drop (Suc k) p"
        using payload(2) by (simp add: id_take_nth_drop)
      have p': "?p' = take k p @ flip_bit i (p ! k) # drop (Suc k) p"
        using payload(2) by (simp add: upd_conv_take_nth_drop)
      have "el_crc8 ((m # l # take k p) @ p ! k # drop (Suc k) p) \<noteq>
          el_crc8 ((m # l # take k p) @ flip_bit i (p ! k) # drop (Suc k) p)"
        using flip_bit_u8_neq [OF bit, of "p ! k"] by (intro el_crc8_single_byte) simp
      then have "el_crc8 (m # l # p) \<noteq> el_crc8 (m # l # ?p')"
        using p p' by (metis append_Cons)
      then show ?thesis
        using payload shape crc
        by (intro exI [of _ m] exI [of _ ?p'] exI [of _ c])
          (simp add: list_update_append1 nth_append)
    next
      case checksum
      have "flip_bit i c \<noteq> el_crc8 (m # l # p)"
        using flip_bit_u8_neq [OF bit, of c] crc by simp
      then show ?thesis
        using checksum shape
        by (intro exI [of _ m] exI [of _ p] exI [of _ "flip_bit i c"]) simp
    qed
  qed
  then obtain m' p' c' where f: "frame[j := flip_bit i (frame ! j)] = EL_SYNC_BYTE # m' # l # p' @ [c']"
    and l': "length p' = length p" and bad: "c' \<noteq> el_crc8 (m' # l # p')"
    by blast
  have len': "unat l = length p'" and max': "length p' \<le> EL_MAX_PAYLOAD"
    using len max l' by simp_all
  from run_frame_rejected [OF idle len' max' buf bad]
  obtain ctx' where "el_process_bytes (Some ctx) (EL_SYNC_BYTE # m' # l # p' @ [c']) = Inr (Some ctx', [])"
    and "rx_errors ctx' = rx_errors ctx + 1" and "rx_frames ctx' = rx_frames ctx"
    and "state ctx' = EL_STATE_IDLE"
    by blast
  then show ?thesis
    using f zero by (intro exI [of _ ctx']) simp
qed

lemmas parser_eval =
  fresh_ctx_def zeroed_ctx_def EL_SYNC_BYTE_def EL_MAX_PAYLOAD_def Let_def
  word_le_nat_alt flip_bit_eq_xor

text \<open>
  The valid frame A5 10 03 01 02 03 40 with the lowest bit of its second payload byte
  flipped.
\<close>

theorem single_bit_error_rejected_witness:
  "el_init (Some zeroed_ctx) (Some example_config) = (True, Some fresh_ctx)
   \<and> (\<exists>ctx1 call. el_process_bytes (Some fresh_ctx) [0xA5, 0x10, 0x03, 0x01, 0x02, 0x03, 0x40] =
         Inr (Some ctx1, [call]))
   \<and> [0xA5, 0x10, 0x03, 0x01, 0x02, 0x03, 0x40 :: uint8_t]
        [4 := flip_bit 0 ([0xA5, 0x10, 0x03, 0x01, 0x02, 0x03, 0x40] ! 4)] =
       [0xA5, 0x10, 0x03, 0x01, 0x03, 0x03, 0x40]
   \<and> (\<exists>ctx'. el_process_bytes (Some fresh_ctx) [0xA5, 0x10, 0x03, 0x01, 0x03, 0x03, 0x40] =
         Inr (Some ctx', [])
       \<and> rx_errors ctx' = 1 \<and> rx_frames ctx' = 0 \<and> state ctx' = EL_STATE_IDLE)"
proof -
  let ?frame = "[0xA5, 0x10, 0x03, 0x01, 0x02, 0x03, 0x40 :: uint8_t]"
  have i: "el_init (Some zeroed_ctx) (Some example_config) = (True, Some fresh_ctx)"
    by (rule el_init_example)
  have shape: "?frame = EL_SYNC_BYTE # 0x10 # 3 # [0x01, 0x02, 0x03] @ [0x40]"
    by (simp add: EL_SYNC_BYTE_def)
  have len: "unat (3 :: uint8_t) = length [0x01, 0x02, 0x03 :: uint8_t]" by simp
  have max: "length [0x01, 0x02, 0x03 :: uint8_t] \<le> EL_MAX_PAYLOAD"
    by (simp add: EL_MAX_PAYLOAD_def)
  have valid: "el_process_bytes (Some fresh_ctx) ?frame =
      Inr (Some (fresh_ctx\<lparr>msg_id := 0x10, payload_len := 3, payload_idx := 3,
                    rx_buffer := (replicate EL_MAX_PAYLOAD 0)[0 := 0x01, 1 := 0x02, 2 := 0x03],
                    running_crc := 0x40, rx_frames := 1\<rparr>),
           [(0x10, (replicate EL_MAX_PAYLOAD 0)[0 := 0x01, 1 := 0x02, 2 := 0x03], 3)])"
    by (simp add: parser_eval crc8_eval)
  have pos: "(4 :: nat) = 1 \<or> (3 \<le> (4 :: nat) \<and> (4 :: nat) \<le> 3 + length [0x01, 0x02, 0x03 :: uint8_t])"
    by simp
  have bit: "(0 :: nat) < 8" by simp
  have flipped: "?frame[4 := flip_bit 0 (?frame ! 4)] = [0xA5, 0x10, 0x03, 0x01, 0x03, 0x03, 0x40]"
    by (simp add: flip_bit_eq_xor)
  show ?thesis
    using i valid flipped single_bit_error_rejected [OF i shape len max valid pos bit]
    by (simp add: fresh_ctx_def zeroed_ctx_def)
qed

text \<open>
  A flipped bit in the length byte is not always rejected. The valid frame
  A5 10 01 57 15 with the lowest bit of its length flipped is A5 10 00 57 15: the
  parser reads an empty payload, finds 57 to be the checksum of 10 00, accepts the
  frame and calls the callback with length 0; no error is counted. The valid frame
  A5 10 03 01 02 03 40 with bit 2 of its length flipped declares 7 payload bytes:
  after its last byte the parser is still in GotLen, waiting for three more, and has
  counted no error.
\<close>

theorem length_bit_flip_not_rejected:
  "el_init (Some zeroed_ctx) (Some example_config) = (True, Some fresh_ctx)
   \<and> el_process_bytes (Some fresh_ctx) [0xA5, 0x10, 0x01, 0x57, 0x15] =
       Inr (Some (fresh_ctx\<lparr>msg_id := 0x10, payload_len := 1, payload_idx := 1,
                     rx_buffer := (replicate EL_MAX_PAYLOAD 0)[0 := 0x57],
                     running_crc := 0x15, rx_frames := 1\<rparr>),
            [(0x10, (replicate EL_MAX_PAYLOAD 0)[0 := 0x57], 1)])
   \<and> [0xA5, 0x10, 0x01, 0x57, 0x15 :: uint8_t]
        [2 := flip_bit 0 ([0xA5, 0x10, 0x01, 0x57, 0x15] ! 2)] =
       [0xA5, 0x10, 0x00, 0x57, 0x15]
   \<and> el_process_bytes (Some fresh_ctx) [0xA5, 0x10, 0x00, 0x57, 0x15] =
       Inr (Some (fresh_ctx\<lparr>msg_id := 0x10, running_crc := 0x57, rx_frames := 1\<rparr>),
            [(0x10, replicate EL_MAX_PAYLOAD 0, 0)])
   \<and> el_process_bytes (Some fresh_ctx) [0xA5, 0x10, 0x03, 0x01, 0x02, 0x03, 0x40] =
       Inr (Some (fresh_ctx\<lparr>msg_id := 0x10, payload_len := 3, payload_idx := 3,
                     rx_buffer := (replicate EL_MAX_PAYLOAD 0)[0 := 0x01, 1 := 0x02, 2 := 0x03],
                     running_crc := 0x40, rx_frames := 1\<rparr>),
            [(0x10, (replicate EL_MAX_PAYLOAD 0)[0 := 0x01, 1 := 0x02, 2 := 0x03], 3)])
   \<and> [0xA5, 0x10, 0x03, 0x01, 0x02, 0x03, 0x40 :: uint8_t]
        [2 := flip_bit 2 ([0xA5, 0x10, 0x03, 0x01, 0x02, 0x03, 0x40] ! 2)] =
       [0xA5, 0x10, 0x07, 0x01, 0x02, 0x03, 0x40]
   \<and> el_process_bytes (Some fresh_ctx) [0xA5, 0x10, 0x07, 0x01, 0x02, 0x03, 0x40] =
       Inr (Some (fresh_ctx\<lparr>state := EL_STATE_GOT_LEN, msg_id := 0x10, payload_len := 7,
                     payload_idx := 4,
                     rx_buffer := (replicate EL_MAX_PAYLOAD 0)[0 := 0x01, 1 := 0x02, 2 := 0x03, 3 := 0x40],
                     running_crc := 0x8F\<rparr>),
            [])"
  by (intro conjI) (simp_all add: example_config_def parser_eval crc8_eval)

end
